theory Spec2Isabelle
  imports Main
begin

section \<open>Data model of the record pipeline (net/net.go)\<close>

text \<open>
  A content identifier is either the undefined CID (\<open>cid.Undef\<close>) or a defined one.
  Equality of CIDs (\<open>Equals\<close>, and the comparison of \<open>String()\<close> forms in
  \<open>getLocalRecords\<close>) is equality of the values.
\<close>

datatype cid = Undef | CID nat

definition Defined :: "cid \<Rightarrow> bool" where
  "Defined c = (c \<noteq> Undef)"

type_synonym thread_id = nat
type_synonym peer_id = nat
type_synonym key = nat
type_synonym identity = nat

text \<open>
  Errors are values. The constructors that wrap another error are the
  \<open>fmt.Errorf("...: %w", err)\<close> calls of the source; \<open>External\<close> is an error
  returned by a collaborator (logstore, blockstore, DAG service, codec, connector, bus);
  \<open>NilDereference\<close> is the panic of a call through a nil connector and
  \<open>IndexOutOfRange\<close> the panic of an index into an empty slice.
\<close>

datatype error =
    EmptyRecordChain
  | ServiceKeyRequired
  | InvalidEvent error
  | LoadingRecordsFailed error
  | FetchingHeadFailed error
  | SettingLogHeadFailed error
  | HandlingRecordFailed error
  | AddingRecordFailed error
  | External nat
  | NilDereference
  | IndexOutOfRange

text \<open>\<open>core.Record\<close>: the signed envelope, with its own CID, the CID of the previous
  record, the CID of its event block and the author's public key.\<close>

record Record =
  Cid :: cid
  PrevID :: cid
  BlockID :: cid
  PubKey :: nat

text \<open>\<open>core.ThreadRecord\<close>, built by \<open>NewRecord\<close>.\<close>

record ThreadRecord =
  Value :: Record
  ThreadID :: thread_id
  LogID :: peer_id

definition NewRecord :: "Record \<Rightarrow> thread_id \<Rightarrow> peer_id \<Rightarrow> ThreadRecord" where
  "NewRecord r tid lid = \<lparr>Value = r, ThreadID = tid, LogID = lid\<rparr>"

text \<open>A \<open>format.Node\<close> is known by its CID; a \<open>cbor.Event\<close> is a node as well.
  \<open>GetBlock\<close> returns a node that either is an event already or has to be reparsed.\<close>

record Node =
  NodeCid :: cid
  NodeData :: nat

record Event =
  EventNode :: Node

datatype block = IsEvent Event | OtherNode Node

text \<open>\<open>app.Connector\<close>: the two hooks of the application, as functions of their
  arguments returning the error, if any.\<close>

record Connector =
  ValidateNetRecordBody :: "Node \<Rightarrow> identity \<Rightarrow> error option"
  HandleNetRecord :: "ThreadRecord \<Rightarrow> error option"

text \<open>
  The collaborators of the pipeline that are not part of \<open>net.go\<close> are parameters:
  what the codec and the DAG service return, and which calls on the logstore, the
  blockstore, the DAG service and the bus fail. A read through the DAG service
  (\<open>cbor.GetRecord\<close>, \<open>GetBlock\<close>, \<open>GetHeader\<close>, \<open>GetBody\<close>) returns what the
  environment says and writes nothing.
\<close>

record env =
  bstoreHas_err :: "cid \<Rightarrow> error option"
  storeHeads_err :: "thread_id \<Rightarrow> peer_id \<Rightarrow> error option"
  storeSetHead_err :: "thread_id \<Rightarrow> peer_id \<Rightarrow> cid \<Rightarrow> error option"
  storeReadKey_err :: "thread_id \<Rightarrow> error option"
  storeServiceKey_err :: "thread_id \<Rightarrow> error option"
  storeGetLog_err :: "thread_id \<Rightarrow> peer_id \<Rightarrow> error option"
  cborGetRecord :: "cid \<Rightarrow> key \<Rightarrow> error + Record"
  recordGetBlock :: "Record \<Rightarrow> error + block"
  cborEventFromNode :: "Node \<Rightarrow> error + Event"
  eventGetHeader :: "Event \<Rightarrow> error + Node"
  eventGetBody :: "Event \<Rightarrow> key option \<Rightarrow> error + Node"
  identityUnmarshalBinary :: "nat \<Rightarrow> error + identity"
  dagAddMany_err :: "Node list \<Rightarrow> error option"
  dagAdd_err :: "Record \<Rightarrow> error option"
  busSend_err :: "ThreadRecord \<Rightarrow> error option"

text \<open>
  The calls whose order the specification speaks about. A call that changes the state
  (\<open>SetHead\<close>, \<open>AddMany\<close>, \<open>Add\<close>, \<open>SendWithTimeout\<close>) is logged when it has
  succeeded; a call of the connector is logged with the CID of the record and whether it
  returned without error; decrypting a body is logged with the CID of the record.
\<close>

datatype call =
    EvAcquire thread_id
  | EvRelease thread_id
  | EvSetHead thread_id peer_id cid
  | EvDecryptBody cid
  | EvValidateNetRecordBody cid bool
  | EvHandleNetRecord cid bool
  | EvAddMany "cid list"
  | EvAdd cid
  | EvSend cid

text \<open>
  The state of a \<open>net\<close>: the CIDs held by the blockstore, the heads, keys and
  connectors, the records published on the bus (oldest first) and the log of calls
  (oldest first).
\<close>

record net =
  bstore :: "cid set"
  heads :: "thread_id \<times> peer_id \<Rightarrow> cid list"
  readKeys :: "thread_id \<Rightarrow> key option"
  serviceKeys :: "thread_id \<Rightarrow> key option"
  connectors :: "thread_id \<Rightarrow> Connector option"
  bus :: "ThreadRecord list"
  trace :: "call list"

section \<open>Collaborators\<close>

text \<open>Modelled from the spec: the blockstore is a content-addressed store with
  \<open>Has\<close>; \<open>isKnown\<close> asks it for the CID.\<close>

definition isKnown :: "env \<Rightarrow> net \<Rightarrow> cid \<Rightarrow> error + bool" where
  "isKnown e n c =
     (case bstoreHas_err e c of Some er \<Rightarrow> Inl er | None \<Rightarrow> Inr (c \<in> bstore n))"

text \<open>Modelled from the spec: the logstore's \<open>Heads\<close> returns the heads recorded for
  the log; \<open>currentHead\<close> takes the first one, or the undefined CID.\<close>

definition currentHead :: "env \<Rightarrow> net \<Rightarrow> thread_id \<Rightarrow> peer_id \<Rightarrow> error + cid" where
  "currentHead e n tid lid =
     (case storeHeads_err e tid lid of
        Some er \<Rightarrow> Inl er
      | None \<Rightarrow> (case heads n (tid, lid) of [] \<Rightarrow> Inr Undef | h # _ \<Rightarrow> Inr h))"

text \<open>Modelled from the spec: the logstore's \<open>SetHead\<close> makes the CID the head of the
  log; a failing call changes nothing.\<close>

definition storeSetHead :: "env \<Rightarrow> thread_id \<Rightarrow> peer_id \<Rightarrow> cid \<Rightarrow> net \<Rightarrow> error option \<times> net" where
  "storeSetHead e tid lid c n =
     (case storeSetHead_err e tid lid c of
        Some er \<Rightarrow> (Some er, n)
      | None \<Rightarrow>
          (None, n\<lparr>heads := (heads n)((tid, lid) := [c]),
                    trace := trace n @ [EvSetHead tid lid c]\<rparr>))"

text \<open>Modelled from the spec: the DAG service writes into the content-addressed store
  (\<open>Put\<close>, \<open>PutMany\<close>); a failing call changes nothing.\<close>

definition dagAdd :: "env \<Rightarrow> Record \<Rightarrow> net \<Rightarrow> error option \<times> net" where
  "dagAdd e r n =
     (case dagAdd_err e r of
        Some er \<Rightarrow> (Some er, n)
      | None \<Rightarrow>
          (None, n\<lparr>bstore := insert (Cid r) (bstore n),
                    trace := trace n @ [EvAdd (Cid r)]\<rparr>))"

definition dagAddMany :: "env \<Rightarrow> Node list \<Rightarrow> net \<Rightarrow> error option \<times> net" where
  "dagAddMany e nds n =
     (case dagAddMany_err e nds of
        Some er \<Rightarrow> (Some er, n)
      | None \<Rightarrow>
          (None, n\<lparr>bstore := set (map NodeCid nds) \<union> bstore n,
                    trace := trace n @ [EvAddMany (map NodeCid nds)]\<rparr>))"

text \<open>Modelled from the spec: the broadcast bus delivers the record to the subscribers
  or fails with a timeout.\<close>

definition busSendWithTimeout :: "env \<Rightarrow> ThreadRecord \<Rightarrow> net \<Rightarrow> error option \<times> net" where
  "busSendWithTimeout e tr n =
     (case busSend_err e tr of
        Some er \<Rightarrow> (Some er, n)
      | None \<Rightarrow>
          (None, n\<lparr>bus := bus n @ [tr], trace := trace n @ [EvSend (Cid (Value tr))]\<rparr>))"

definition storeReadKey :: "env \<Rightarrow> net \<Rightarrow> thread_id \<Rightarrow> error + key option" where
  "storeReadKey e n tid =
     (case storeReadKey_err e tid of Some er \<Rightarrow> Inl er | None \<Rightarrow> Inr (readKeys n tid))"

definition storeServiceKey :: "env \<Rightarrow> net \<Rightarrow> thread_id \<Rightarrow> error + key option" where
  "storeServiceKey e n tid =
     (case storeServiceKey_err e tid of Some er \<Rightarrow> Inl er | None \<Rightarrow> Inr (serviceKeys n tid))"

definition getConnector :: "net \<Rightarrow> thread_id \<Rightarrow> Connector option" where
  "getConnector n tid = connectors n tid"

section \<open>getRecord\<close>

definition getRecord :: "env \<Rightarrow> net \<Rightarrow> thread_id \<Rightarrow> cid \<Rightarrow> error + Record" where
  "getRecord e n tid rid =
     (case storeServiceKey e n tid of
        Inl er \<Rightarrow> Inl er
      | Inr None \<Rightarrow> Inl ServiceKeyRequired
      | Inr (Some sk) \<Rightarrow> cborGetRecord e rid sk)"

section \<open>loadRecords\<close>

text \<open>The walk over the input, last record first (lines 980-987): \<open>collect head
  (rev recs) []\<close> returns the chain, newest first, and whether the walk met the head
  or an undefined CID.\<close>

fun collect :: "cid \<Rightarrow> Record list \<Rightarrow> Record list \<Rightarrow> Record list \<times> bool" where
  "collect head [] chain = (chain, False)"
| "collect head (next # rest) chain =
     (if \<not> Defined (Cid next) \<or> Cid next = head then (chain, True)
      else collect head rest (chain @ [next]))"

text \<open>Bridging the gap to the head (lines 992-1004). Nothing bounds the number of
  records fetched, so the loop is a partial function: \<open>None\<close> is a walk that never
  ends.\<close>

partial_function (option) bridge ::
  "env \<Rightarrow> net \<Rightarrow> thread_id \<Rightarrow> cid \<Rightarrow> cid \<Rightarrow> Record list \<Rightarrow> (error + Record list) option" where
  "bridge e n tid head c chain =
     (if Defined c then
        (if c = head then Some (Inr chain)
         else (case getRecord e n tid c of
                 Inl er \<Rightarrow> Some (Inl er)
               | Inr r \<Rightarrow> bridge e n tid head (PrevID r) (chain @ [r])))
      else Some (Inr chain))"

declare bridge.simps [code]

definition buildChain ::
  "env \<Rightarrow> net \<Rightarrow> thread_id \<Rightarrow> cid \<Rightarrow> Record list \<Rightarrow> (error + Record list) option" where
  "buildChain e n tid head recs =
     (case collect head (rev recs) [] of
        (chain, complete) \<Rightarrow>
          if \<not> complete then
            (case chain of
               [] \<Rightarrow> Some (Inl IndexOutOfRange)
             | _ # _ \<Rightarrow> bridge e n tid head (PrevID (last chain)) chain)
          else Some (Inr chain))"

text \<open>The event of a record (lines 1031-1042).\<close>

definition getEvent :: "env \<Rightarrow> Record \<Rightarrow> error + Event" where
  "getEvent e r =
     (case recordGetBlock e r of
        Inl er \<Rightarrow> Inl er
      | Inr (IsEvent event) \<Rightarrow> Inr event
      | Inr (OtherNode nd) \<Rightarrow>
          (case cborEventFromNode e nd of
             Inl er \<Rightarrow> Inl (InvalidEvent er)
           | Inr event \<Rightarrow> Inr event))"

text \<open>The body validation of one record (lines 1054-1067).\<close>

definition validateBody ::
  "env \<Rightarrow> Connector option \<Rightarrow> key option \<Rightarrow> Record \<Rightarrow> Event \<Rightarrow> net \<Rightarrow> error option \<times> net" where
  "validateBody e connector readKey r event n =
     (let n1 = n\<lparr>trace := trace n @ [EvDecryptBody (Cid r)]\<rparr> in
      case eventGetBody e event readKey of
        Inl er \<Rightarrow> (Some er, n1)
      | Inr dbody \<Rightarrow>
          (case identityUnmarshalBinary e (PubKey r) of
             Inl er \<Rightarrow> (Some er, n1)
           | Inr ident \<Rightarrow>
               (case connector of
                  None \<Rightarrow> (Some NilDereference, n1)
                | Some c \<Rightarrow>
                    (ValidateNetRecordBody c dbody ident,
                     n1\<lparr>trace := trace n1 @
                          [EvValidateNetRecordBody (Cid r)
                             (ValidateNetRecordBody c dbody ident = None)]\<rparr>))))"

text \<open>One turn of the loop over the chain (lines 1029-1075).\<close>

definition loadRecord ::
  "env \<Rightarrow> Connector option \<Rightarrow> key option \<Rightarrow> bool \<Rightarrow> Record \<Rightarrow> net \<Rightarrow> error option \<times> net" where
  "loadRecord e connector readKey validate r n =
     (case getEvent e r of
        Inl er \<Rightarrow> (Some er, n)
      | Inr event \<Rightarrow>
          (case eventGetHeader e event of
             Inl er \<Rightarrow> (Some er, n)
           | Inr header \<Rightarrow>
               (case eventGetBody e event None of
                  Inl er \<Rightarrow> (Some er, n)
                | Inr body \<Rightarrow>
                    (case (if validate then validateBody e connector readKey r event n
                           else (None, n)) of
                       (Some er, n1) \<Rightarrow> (Some er, n1)
                     | (None, n1) \<Rightarrow> dagAddMany e [EventNode event, header, body] n1))))"

text \<open>The loop itself, over the chain oldest first (the source indexes the chain from
  its end).\<close>

fun loadChain ::
  "env \<Rightarrow> Connector option \<Rightarrow> key option \<Rightarrow> bool \<Rightarrow> Record list \<Rightarrow> net \<Rightarrow> error option \<times> net" where
  "loadChain e connector readKey validate [] n = (None, n)"
| "loadChain e connector readKey validate (r # rs) n =
     (case loadRecord e connector readKey validate r n of
        (Some er, n1) \<Rightarrow> (Some er, n1)
      | (None, n1) \<Rightarrow> loadChain e connector readKey validate rs n1)"

text \<open>Lines 1012-1077: the connector, the read key, the flag \<open>validate\<close>, then the loop.\<close>

definition validateChain ::
  "env \<Rightarrow> net \<Rightarrow> thread_id \<Rightarrow> peer_id \<Rightarrow> cid \<Rightarrow> Record list \<Rightarrow>
   (error + ThreadRecord list \<times> cid) \<times> net" where
  "validateChain e n tid lid head chain =
     (let connector = getConnector n tid;
          appConnected = (connector \<noteq> None) in
      case (if appConnected then storeReadKey e n tid else Inr None) of
        Inl er \<Rightarrow> (Inl er, n)
      | Inr readKey \<Rightarrow>
          (let validate = (appConnected \<and> readKey \<noteq> None) in
           case loadChain e connector readKey validate (rev chain) n of
             (Some er, n1) \<Rightarrow> (Inl er, n1)
           | (None, n1) \<Rightarrow>
               (Inr (map (\<lambda>r. NewRecord r tid lid) (rev chain), head), n1)))"

definition loadRecords ::
  "env \<Rightarrow> net \<Rightarrow> thread_id \<Rightarrow> peer_id \<Rightarrow> Record list \<Rightarrow>
   ((error + ThreadRecord list \<times> cid) \<times> net) option" where
  "loadRecords e n tid lid recs =
     (if recs = [] then Some (Inl EmptyRecordChain, n)
      else
        (case isKnown e n (Cid (last recs)) of
           Inl er \<Rightarrow> Some (Inl er, n)
         | Inr exist \<Rightarrow>
             if exist \<or> \<not> Defined (Cid (last recs)) then Some (Inr ([], Undef), n)
             else
               (case currentHead e n tid lid of
                  Inl er \<Rightarrow> Some (Inl er, n)
                | Inr head \<Rightarrow>
                    (case buildChain e n tid head recs of
                       None \<Rightarrow> None
                     | Some (Inl er) \<Rightarrow> Some (Inl er, n)
                     | Some (Inr chain) \<Rightarrow>
                         if chain = [] then Some (Inr ([], head), n)
                         else Some (validateChain e n tid lid head chain)))))"

section \<open>putRecords\<close>

text \<open>The fast-forward of the chain to the updated head (lines 903-909): \<open>None\<close> when
  the head is not met.\<close>

fun fastForward :: "cid \<Rightarrow> ThreadRecord list \<Rightarrow> ThreadRecord list option" where
  "fastForward current [] = None"
| "fastForward current (r # rs) =
     (if Cid (Value r) = current then Some rs else fastForward current rs)"

text \<open>One turn of the loop over the chain (lines 918-945).\<close>

definition commitRecord ::
  "env \<Rightarrow> Connector option \<Rightarrow> thread_id \<Rightarrow> peer_id \<Rightarrow> ThreadRecord \<Rightarrow> net \<Rightarrow>
   error option \<times> net" where
  "commitRecord e connector tid lid record n =
     (case storeSetHead e tid lid (Cid (Value record)) n of
        (Some er, n1) \<Rightarrow> (Some (SettingLogHeadFailed er), n1)
      | (None, n1) \<Rightarrow>
          (case (case connector of
                   None \<Rightarrow> (None, n1)
                 | Some c \<Rightarrow>
                     (HandleNetRecord c record,
                      n1\<lparr>trace := trace n1 @
                           [EvHandleNetRecord (Cid (Value record))
                              (HandleNetRecord c record = None)]\<rparr>)) of
             (Some er, n2) \<Rightarrow> (Some (HandlingRecordFailed er), n2)
           | (None, n2) \<Rightarrow>
               (case dagAdd e (Value record) n2 of
                  (Some er, n3) \<Rightarrow> (Some (AddingRecordFailed er), n3)
                | (None, n3) \<Rightarrow> busSendWithTimeout e record n3)))"

text \<open>The loop over the chain (lines 917-946).\<close>

fun commitRecords ::
  "env \<Rightarrow> Connector option \<Rightarrow> thread_id \<Rightarrow> peer_id \<Rightarrow> ThreadRecord list \<Rightarrow> net \<Rightarrow>
   (error + unit) \<times> net" where
  "commitRecords e connector tid lid [] n = (Inr (), n)"
| "commitRecords e connector tid lid (record # rest) n =
     (case commitRecord e connector tid lid record n of
        (Some er, n1) \<Rightarrow> (Inl er, n1)
      | (None, n1) \<Rightarrow> commitRecords e connector tid lid rest n1)"

text \<open>The recheck of the head (lines 897-914): the records still to be committed, or
  \<open>None\<close> when the whole chain has been processed by someone else.\<close>

definition recheckHead ::
  "env \<Rightarrow> thread_id \<Rightarrow> peer_id \<Rightarrow> ThreadRecord list \<Rightarrow> cid \<Rightarrow> net \<Rightarrow>
   error + ThreadRecord list option" where
  "recheckHead e tid lid chain head n =
     (case currentHead e n tid lid of
        Inl er \<Rightarrow> Inl (FetchingHeadFailed er)
      | Inr current \<Rightarrow>
          if current \<noteq> head then
            (case fastForward current chain of
               None \<Rightarrow> Inr None
             | Some chain' \<Rightarrow> Inr (Some chain'))
          else Inr (Some chain))"

text \<open>Lines 897-948, run while the semaphore of the thread is held.\<close>

definition putRecordsBody ::
  "env \<Rightarrow> thread_id \<Rightarrow> peer_id \<Rightarrow> ThreadRecord list \<Rightarrow> cid \<Rightarrow> net \<Rightarrow> (error + unit) \<times> net" where
  "putRecordsBody e tid lid chain head n =
     (case recheckHead e tid lid chain head n of
        Inl er \<Rightarrow> (Inl er, n)
      | Inr None \<Rightarrow> (Inr (), n)
      | Inr (Some chain') \<Rightarrow> commitRecords e (getConnector n tid) tid lid chain' n)"

text \<open>Modelled from the spec: the semaphore pool holds one binary semaphore per
  thread (key \<open>"tu:" + threadID\<close>); acquiring and releasing it touch no other state.\<close>

definition semaAcquire :: "thread_id \<Rightarrow> net \<Rightarrow> net" where
  "semaAcquire tid n = n\<lparr>trace := trace n @ [EvAcquire tid]\<rparr>"

definition semaRelease :: "thread_id \<Rightarrow> net \<Rightarrow> net" where
  "semaRelease tid n = n\<lparr>trace := trace n @ [EvRelease tid]\<rparr>"

text \<open>Lines 893-895: acquire the semaphore, run the body, release on return.\<close>

definition putRecordsLocked ::
  "env \<Rightarrow> thread_id \<Rightarrow> peer_id \<Rightarrow> ThreadRecord list \<Rightarrow> cid \<Rightarrow> net \<Rightarrow> (error + unit) \<times> net" where
  "putRecordsLocked e tid lid chain head n =
     (case putRecordsBody e tid lid chain head (semaAcquire tid n) of
        (res, n1) \<Rightarrow> (res, semaRelease tid n1))"

text \<open>
  \<open>putRecords\<close>. The argument \<open>others\<close> is what other workers do to the state between
  the return of \<open>loadRecords\<close> and the acquisition of the semaphore; a call that runs
  alone has \<open>others = id\<close>.
\<close>

definition putRecords ::
  "env \<Rightarrow> (net \<Rightarrow> net) \<Rightarrow> net \<Rightarrow> thread_id \<Rightarrow> peer_id \<Rightarrow> Record list \<Rightarrow>
   ((error + unit) \<times> net) option" where
  "putRecords e others n tid lid recs =
     (case loadRecords e n tid lid recs of
        None \<Rightarrow> None
      | Some (Inl er, n1) \<Rightarrow> Some (Inl (LoadingRecordsFailed er), n1)
      | Some (Inr (chain, head), n1) \<Rightarrow>
          if chain = [] then Some (Inr (), n1)
          else Some (putRecordsLocked e tid lid chain head (others n1)))"

section \<open>getLocalRecords\<close>

text \<open>The only field of \<open>thread.LogInfo\<close> that \<open>getLocalRecords\<close> reads.\<close>

record LogInfo =
  Head :: cid

text \<open>Modelled from the spec: a log carries a head CID; the logstore's \<open>GetLog\<close>
  returns the log with the head recorded for it, or the undefined CID.\<close>

definition storeGetLog :: "env \<Rightarrow> net \<Rightarrow> thread_id \<Rightarrow> peer_id \<Rightarrow> error + LogInfo" where
  "storeGetLog e n tid lid =
     (case storeGetLog_err e tid lid of
        Some er \<Rightarrow> Inl er
      | None \<Rightarrow> Inr \<lparr>Head = (case heads n (tid, lid) of [] \<Rightarrow> Undef | h # _ \<Rightarrow> h)\<rparr>)"

text \<open>The loop of lines 1180-1191. The source returns the records fetched so far
  together with the error, so the result is a pair.\<close>

function getLocalRecordsLoop ::
  "env \<Rightarrow> key \<Rightarrow> cid \<Rightarrow> int \<Rightarrow> cid \<Rightarrow> Record list \<Rightarrow> Record list \<times> error option" where
  "getLocalRecordsLoop e sk offset limit cursor recs =
     (if int (length recs) < limit then
        (if \<not> Defined cursor \<or> cursor = offset then (recs, None)
         else (case cborGetRecord e cursor sk of
                 Inl er \<Rightarrow> (recs, Some er)
               | Inr r \<Rightarrow> getLocalRecordsLoop e sk offset limit (PrevID r) (r # recs)))
      else (recs, None))"
  by pat_completeness auto
termination
  by (relation "measure (\<lambda>(e, sk, offset, limit, cursor, recs). nat (limit - int (length recs)))")
     auto

declare getLocalRecordsLoop.simps [simp del]

definition getLocalRecords ::
  "env \<Rightarrow> net \<Rightarrow> thread_id \<Rightarrow> peer_id \<Rightarrow> cid \<Rightarrow> int \<Rightarrow> Record list \<times> error option" where
  "getLocalRecords e n tid lid offset limit =
     (let walk =
        (case storeGetLog e n tid lid of
           Inl er \<Rightarrow> ([], Some er)
         | Inr lg \<Rightarrow>
             (case storeServiceKey e n tid of
                Inl er \<Rightarrow> ([], Some er)
              | Inr None \<Rightarrow> ([], Some ServiceKeyRequired)
              | Inr (Some sk) \<Rightarrow> getLocalRecordsLoop e sk offset limit (Head lg) []))
      in
      if Defined offset then
        (case isKnown e n offset of
           Inl er \<Rightarrow> ([], Some er)
         | Inr knownRecord \<Rightarrow> if \<not> knownRecord then ([], None) else walk)
      else walk)"

section \<open>Notions used to state the properties\<close>

text \<open>The calls logged between two states.\<close>

definition newCalls :: "net \<Rightarrow> net \<Rightarrow> call list" where
  "newCalls n n' = drop (length (trace n)) (trace n')"

text \<open>The calls that \<open>loadRecords\<close> may make.\<close>

fun isLoadCall :: "call \<Rightarrow> bool" where
  "isLoadCall (EvDecryptBody c) = True"
| "isLoadCall (EvValidateNetRecordBody c ok) = True"
| "isLoadCall (EvAddMany cs) = True"
| "isLoadCall ev = False"

text \<open>What \<open>loadRecords\<close> leaves alone: heads, bus, keys and connectors; the blockstore
  only grows and only loading calls are logged.\<close>

definition loadFrame :: "net \<Rightarrow> net \<Rightarrow> bool" where
  "loadFrame n n' \<longleftrightarrow>
     heads n' = heads n \<and> bus n' = bus n \<and> readKeys n' = readKeys n \<and>
     serviceKeys n' = serviceKeys n \<and> connectors n' = connectors n \<and>
     bstore n \<subseteq> bstore n' \<and>
     (\<exists>ext. trace n' = trace n @ ext \<and> list_all isLoadCall ext)"

text \<open>The connector rejects the body of the record: the event, the decrypted body and
  the identity are obtained, and \<open>ValidateNetRecordBody\<close> returns an error.\<close>

definition rejectsBody :: "env \<Rightarrow> Connector \<Rightarrow> key \<Rightarrow> Record \<Rightarrow> bool" where
  "rejectsBody e c rk r =
     (case getEvent e r of
        Inl er \<Rightarrow> False
      | Inr event \<Rightarrow>
          (case eventGetBody e event (Some rk) of
             Inl er \<Rightarrow> False
           | Inr dbody \<Rightarrow>
               (case identityUnmarshalBinary e (PubKey r) of
                  Inl er \<Rightarrow> False
                | Inr ident \<Rightarrow> ValidateNetRecordBody c dbody ident \<noteq> None)))"

text \<open>\<open>precededBy req prev calls\<close>: every call of the list that has a required
  predecessor (\<open>req\<close>) comes right after it; \<open>prev\<close> is the call before the list.\<close>

fun precededBy :: "(call \<Rightarrow> call option) \<Rightarrow> call option \<Rightarrow> call list \<Rightarrow> bool" where
  "precededBy req prev [] = True"
| "precededBy req prev (ev # rest) =
     ((case req ev of None \<Rightarrow> True | Some p \<Rightarrow> prev = Some p) \<and> precededBy req (Some ev) rest)"

text \<open>A call of \<open>HandleNetRecord\<close> for a record comes right after the \<open>SetHead\<close> to
  the CID of that record.\<close>

fun handleReq :: "thread_id \<Rightarrow> peer_id \<Rightarrow> call \<Rightarrow> call option" where
  "handleReq tid lid (EvHandleNetRecord x ok) = Some (EvSetHead tid lid x)"
| "handleReq tid lid ev = None"

text \<open>The envelope of a record is added right after its successful handling when a
  connector is attached, right after the \<open>SetHead\<close> otherwise.\<close>

fun envelopeReq :: "bool \<Rightarrow> thread_id \<Rightarrow> peer_id \<Rightarrow> call \<Rightarrow> call option" where
  "envelopeReq appConnected tid lid (EvAdd x) =
     Some (if appConnected then EvHandleNetRecord x True else EvSetHead tid lid x)"
| "envelopeReq appConnected tid lid ev = None"


text \<open>The records are linked by their \<open>prev\<close> pointers, the first one onto \<open>h\<close>.\<close>

fun linkedFrom :: "cid \<Rightarrow> Record list \<Rightarrow> bool" where
  "linkedFrom h [] = True"
| "linkedFrom h (r # rs) = (PrevID r = h \<and> linkedFrom (Cid r) rs)"



text \<open>\<open>fetchedFrom e sk offset cursor rs\<close>: the records \<open>rs\<close>, newest first, are the
  ones fetched by following \<open>prev\<close> pointers from \<open>cursor\<close>, none of them at the
  offset or at an undefined CID.\<close>

fun fetchedFrom :: "env \<Rightarrow> key \<Rightarrow> cid \<Rightarrow> cid \<Rightarrow> Record list \<Rightarrow> bool" where
  "fetchedFrom e sk offset cursor [] = True"
| "fetchedFrom e sk offset cursor (r # rs) =
     (Defined cursor \<and> cursor \<noteq> offset \<and> cborGetRecord e cursor sk = Inr r \<and>
      fetchedFrom e sk offset (PrevID r) rs)"

text \<open>Where the walk would go on: the \<open>prev\<close> pointer of the oldest record returned, or
  the head when none is.\<close>

definition nextCursor :: "cid \<Rightarrow> Record list \<Rightarrow> cid" where
  "nextCursor head rs = (case rs of [] \<Rightarrow> head | r # _ \<Rightarrow> PrevID r)"

text \<open>The calls that read a decrypted body.\<close>

fun isBodyCall :: "call \<Rightarrow> bool" where
  "isBodyCall (EvDecryptBody c) = True"
| "isBodyCall (EvValidateNetRecordBody c ok) = True"
| "isBodyCall ev = False"

text \<open>The collaborators do not fail on the record: its blocks are obtained and stored
  (\<open>loadable\<close>); its head is set, its handler succeeds when a connector is attached,
  its envelope is added and it is published (\<open>committable\<close>).\<close>

definition loadable :: "env \<Rightarrow> Record \<Rightarrow> bool" where
  "loadable e r =
     (case getEvent e r of
        Inl er \<Rightarrow> False
      | Inr event \<Rightarrow>
          (case eventGetHeader e event of
             Inl er \<Rightarrow> False
           | Inr header \<Rightarrow>
               (case eventGetBody e event None of
                  Inl er \<Rightarrow> False
                | Inr body \<Rightarrow> dagAddMany_err e [EventNode event, header, body] = None)))"

definition committable ::
  "env \<Rightarrow> Connector option \<Rightarrow> thread_id \<Rightarrow> peer_id \<Rightarrow> Record \<Rightarrow> bool" where
  "committable e connector tid lid r =
     (storeSetHead_err e tid lid (Cid r) = None \<and>
      (case connector of None \<Rightarrow> True | Some c \<Rightarrow> HandleNetRecord c (NewRecord r tid lid) = None) \<and>
      dagAdd_err e r = None \<and> busSend_err e (NewRecord r tid lid) = None)"

text \<open>Only calls that read no decrypted body are logged between the two states.\<close>

definition quietFrame :: "net \<Rightarrow> net \<Rightarrow> bool" where
  "quietFrame n n' \<longleftrightarrow>
     (\<exists>ext. trace n' = trace n @ ext \<and> list_all (\<lambda>ev. \<not> isBodyCall ev) ext)"

section \<open>Example data\<close>

text \<open>A log of two records, the second pointing at the first, and a record that
  starts another chain.\<close>

definition exRec1 :: Record where
  "exRec1 = \<lparr>Cid = CID 1, PrevID = Undef, BlockID = CID 11, PubKey = 7\<rparr>"

definition exRec2 :: Record where
  "exRec2 = \<lparr>Cid = CID 2, PrevID = CID 1, BlockID = CID 12, PubKey = 7\<rparr>"

definition exRec9 :: Record where
  "exRec9 = \<lparr>Cid = CID 9, PrevID = Undef, BlockID = CID 19, PubKey = 7\<rparr>"

definition exNode :: "cid \<Rightarrow> nat \<Rightarrow> Node" where
  "exNode c k =
     \<lparr>NodeCid = (case c of Undef \<Rightarrow> Undef | CID m \<Rightarrow> CID (m + k)), NodeData = 0\<rparr>"

text \<open>Collaborators that never fail; the DAG service knows the two records of the log.\<close>

definition exEnv :: env where
  "exEnv = \<lparr>
     bstoreHas_err = (\<lambda>c. None),
     storeHeads_err = (\<lambda>t l. None),
     storeSetHead_err = (\<lambda>t l c. None),
     storeReadKey_err = (\<lambda>t. None),
     storeServiceKey_err = (\<lambda>t. None),
     storeGetLog_err = (\<lambda>t l. None),
     cborGetRecord = (\<lambda>c k. if c = CID 1 then Inr exRec1
                             else if c = CID 2 then Inr exRec2 else Inl (External 404)),
     recordGetBlock = (\<lambda>r. Inr (IsEvent \<lparr>EventNode = exNode (BlockID r) 0\<rparr>)),
     cborEventFromNode = (\<lambda>nd. Inr \<lparr>EventNode = nd\<rparr>),
     eventGetHeader = (\<lambda>ev. Inr (exNode (NodeCid (EventNode ev)) 100)),
     eventGetBody = (\<lambda>ev k. Inr (exNode (NodeCid (EventNode ev)) 200)),
     identityUnmarshalBinary = (\<lambda>pk. Inr pk),
     dagAddMany_err = (\<lambda>nds. None),
     dagAdd_err = (\<lambda>r. None),
     busSend_err = (\<lambda>tr. None)\<rparr>"

text \<open>An empty peer that holds the service key of every thread and no read key.\<close>

definition exNet :: net where
  "exNet = \<lparr>bstore = {}, heads = (\<lambda>p. []), readKeys = (\<lambda>t. None),
     serviceKeys = (\<lambda>t. Some 5), connectors = (\<lambda>t. None), bus = [], trace = []\<rparr>"

text \<open>Connectors: one that accepts everything, one that rejects every body, one whose
  handler fails on the first record of the log.\<close>

definition exAccepting :: Connector where
  "exAccepting = \<lparr>ValidateNetRecordBody = (\<lambda>b i. None), HandleNetRecord = (\<lambda>r. None)\<rparr>"

definition exRejecting :: Connector where
  "exRejecting =
     \<lparr>ValidateNetRecordBody = (\<lambda>b i. Some (External 1)), HandleNetRecord = (\<lambda>r. None)\<rparr>"

definition exFailing :: Connector where
  "exFailing =
     \<lparr>ValidateNetRecordBody = (\<lambda>b i. None),
      HandleNetRecord = (\<lambda>r. if Cid (Value r) = CID 1 then Some (External 2) else None)\<rparr>"

text \<open>The empty peer with a connector and a read key on every thread.\<close>

definition exNetWith :: "Connector \<Rightarrow> net" where
  "exNetWith c = exNet\<lparr>readKeys := (\<lambda>t. Some 9), connectors := (\<lambda>t. Some c)\<rparr>"

text \<open>Another worker that commits the first record of log 1 of thread 1.\<close>

definition exOthers :: "net \<Rightarrow> net" where
  "exOthers n = n\<lparr>heads := (heads n)((1, 1) := [CID 1])\<rparr>"

text \<open>The records of the examples, by CID.\<close>

definition exLookup :: "cid \<Rightarrow> Record option" where
  "exLookup c =
     (if c = CID 1 then Some exRec1 else if c = CID 2 then Some exRec2
      else if c = CID 9 then Some exRec9 else None)"

text \<open>Three calls in a row on a peer whose handler fails on the first record: the
  first record alone, then both records, then the first record again.\<close>

definition exAfter1 :: net where
  "exAfter1 = snd (the (putRecords exEnv id (exNetWith exFailing) 1 1 [exRec1]))"

definition exAfter2 :: net where
  "exAfter2 = snd (the (putRecords exEnv id exAfter1 1 1 [exRec1, exRec2]))"

definition exAfter3 :: net where
  "exAfter3 = snd (the (putRecords exEnv id exAfter2 1 1 [exRec1]))"

text \<open>A peer that has processed both records of the log.\<close>

definition exNetHead2 :: net where
  "exNetHead2 = exNet\<lparr>bstore := {CID 1, CID 2}, heads := (\<lambda>p. [CID 2])\<rparr>"

text \<open>A peer with a connector and no read key.\<close>

definition exNetService :: net where
  "exNetService = exNet\<lparr>connectors := (\<lambda>t. Some exAccepting)\<rparr>"

section \<open>Evaluation of the examples\<close>

lemmas model_defs =
  putRecords_def loadRecords_def isKnown_def currentHead_def Defined_def buildChain_def
  getRecord_def storeServiceKey_def storeReadKey_def validateChain_def getConnector_def
  loadRecord_def validateBody_def getEvent_def dagAddMany_def dagAdd_def storeSetHead_def
  busSendWithTimeout_def NewRecord_def commitRecord_def putRecordsLocked_def putRecordsBody_def
  recheckHead_def semaAcquire_def semaRelease_def newCalls_def rejectsBody_def
  getLocalRecords_def storeGetLog_def

lemmas ex_defs =
  exRec1_def exRec2_def exRec9_def exNode_def exEnv_def exNet_def exAccepting_def
  exRejecting_def exFailing_def exNetWith_def exOthers_def exLookup_def
  exAfter1_def exAfter2_def exAfter3_def exNetHead2_def exNetService_def

section \<open>Empty input and fast exit\<close>

text \<open>
  C10. \<open>putRecords\<close> on the empty list of records returns the error "cannot load empty
  record chain" (wrapped by "loading records failed"), for whatever the other workers
  would do, and the state, with its heads, blockstore, bus and log of calls, is the one
  before the call.
\<close>

theorem putRecords_empty_chain:
  "putRecords e others n tid lid [] = Some (Inl (LoadingRecordsFailed EmptyRecordChain), n)"
  by (simp add: putRecords_def loadRecords_def)

theorem putRecords_empty_chain_witness:
  "putRecords exEnv exOthers exNet 1 1 [] =
     Some (Inl (LoadingRecordsFailed EmptyRecordChain), exNet)"
  by (rule putRecords_empty_chain)



section \<open>loadRecords leaves the heads alone\<close>

lemma loadFrame_refl: "loadFrame n n"
  by (simp add: loadFrame_def)

lemma loadFrame_trans: "loadFrame n n1 \<Longrightarrow> loadFrame n1 n2 \<Longrightarrow> loadFrame n n2"
  unfolding loadFrame_def by (elim conjE exE) (auto simp: list_all_append)

lemma validateBody_frame:
  "validateBody e connector readKey r event n = (res, n') \<Longrightarrow> loadFrame n n'"
  by (auto simp: validateBody_def loadFrame_def Let_def split: sum.splits option.splits)

lemma dagAddMany_frame: "dagAddMany e nds n = (res, n') \<Longrightarrow> loadFrame n n'"
  by (auto simp: dagAddMany_def loadFrame_def Let_def split: option.splits)

lemma loadRecord_frame:
  "loadRecord e connector readKey validate r n = (res, n') \<Longrightarrow> loadFrame n n'"
  unfolding loadRecord_def
  by (auto split: sum.splits option.splits if_splits prod.splits
      intro: loadFrame_refl dagAddMany_frame validateBody_frame
      dest!: validateBody_frame dagAddMany_frame elim: loadFrame_trans)

lemma loadChain_frame:
  "loadChain e connector readKey validate rs n = (res, n') \<Longrightarrow> loadFrame n n'"
proof (induction rs arbitrary: n)
  case Nil
  then show ?case by (simp add: loadFrame_refl)
next
  case (Cons r rs)
  obtain res1 n1 where step: "loadRecord e connector readKey validate r n = (res1, n1)"
    by (cases "loadRecord e connector readKey validate r n")
  have f1: "loadFrame n n1" using step by (rule loadRecord_frame)
  show ?case
  proof (cases res1)
    case None
    with Cons.prems step have "loadChain e connector readKey validate rs n1 = (res, n')"
      by simp
    then have "loadFrame n1 n'" by (rule Cons.IH)
    with f1 show ?thesis by (rule loadFrame_trans)
  next
    case (Some er)
    with Cons.prems step have "n' = n1" by simp
    with f1 show ?thesis by simp
  qed
qed

lemma validateChain_frame:
  "validateChain e n tid lid head chain = (res, n') \<Longrightarrow> loadFrame n n'"
  unfolding validateChain_def Let_def
  by (auto split: sum.splits prod.splits option.splits if_splits
      intro: loadFrame_refl dest: loadChain_frame)

lemma loadRecords_frame:
  "loadRecords e n tid lid recs = Some (res, n') \<Longrightarrow> loadFrame n n'"
  unfolding loadRecords_def
  by (auto split: sum.splits prod.splits option.splits if_splits
      intro: loadFrame_refl dest: validateChain_frame)

lemma loadRecord_rejects:
  assumes "rejectsBody e c rk r"
  shows "\<exists>er n'. loadRecord e (Some c) (Some rk) True r n = (Some er, n')"
  using assms unfolding rejectsBody_def loadRecord_def validateBody_def Let_def
  by (auto split: sum.splits option.splits prod.splits)

lemma loadChain_rejects:
  assumes "r \<in> set rs" and "rejectsBody e c rk r"
  shows "\<exists>er n'. loadChain e (Some c) (Some rk) True rs n = (Some er, n')"
  using assms(1)
proof (induction rs arbitrary: n)
  case Nil
  then show ?case by simp
next
  case (Cons a rs)
  obtain res1 n1 where step: "loadRecord e (Some c) (Some rk) True a n = (res1, n1)"
    by (cases "loadRecord e (Some c) (Some rk) True a n")
  show ?case
  proof (cases res1)
    case (Some er)
    with step show ?thesis by simp
  next
    case None
    have "a \<noteq> r"
    proof
      assume "a = r"
      with loadRecord_rejects [OF assms(2), of n] step None show False by simp
    qed
    with Cons.prems have "r \<in> set rs" by simp
    from Cons.IH [OF this, of n1] step None show ?thesis by simp
  qed
qed

text \<open>
  C1. A connector is attached to the thread and a read key is available; the chain has
  been built (the last record is neither known nor undefined, the head is \<open>head\<close>,
  the walk and the gap filling give \<open>chain\<close>) and the connector rejects the body of
  some record of the chain. Then \<open>putRecords\<close> returns an error, the heads of all logs
  are the ones before the call, nothing was published on the bus, and the only calls
  made are the ones of the loading loop: no \<open>SetHead\<close>, no semaphore.
\<close>

theorem putRecords_validation_failure:
  assumes "recs \<noteq> []"
    and "isKnown e n (Cid (last recs)) = Inr False"
    and "Defined (Cid (last recs))"
    and "currentHead e n tid lid = Inr head"
    and "buildChain e n tid head recs = Some (Inr chain)"
    and "getConnector n tid = Some c"
    and "storeReadKey e n tid = Inr (Some rk)"
    and "r \<in> set chain"
    and "rejectsBody e c rk r"
  shows "\<exists>er n'. putRecords e others n tid lid recs = Some (Inl (LoadingRecordsFailed er), n') \<and>
           heads n' = heads n \<and> bus n' = bus n \<and>
           trace n' = trace n @ newCalls n n' \<and> list_all isLoadCall (newCalls n n')"
proof -
  from assms(8) have ne: "chain \<noteq> []" by auto
  from assms(8) have "r \<in> set (rev chain)" by simp
  from loadChain_rejects [OF this assms(9), of n]
  obtain er n' where lc: "loadChain e (Some c) (Some rk) True (rev chain) n = (Some er, n')"
    by blast
  have vc: "validateChain e n tid lid head chain = (Inl er, n')"
    using lc assms(6,7) by (simp add: validateChain_def)
  have lr: "loadRecords e n tid lid recs = Some (Inl er, n')"
    using assms(1-5) ne vc by (simp add: loadRecords_def)
  then have pr: "putRecords e others n tid lid recs = Some (Inl (LoadingRecordsFailed er), n')"
    by (simp add: putRecords_def)
  from loadRecords_frame [OF lr] have fr: "loadFrame n n'" .
  then obtain ext where "trace n' = trace n @ ext" "list_all isLoadCall ext"
    unfolding loadFrame_def by blast
  then have "trace n' = trace n @ newCalls n n'" "list_all isLoadCall (newCalls n n')"
    by (simp_all add: newCalls_def)
  with pr fr show ?thesis unfolding loadFrame_def by blast
qed

theorem putRecords_validation_failure_witness:
  "\<exists>er n'. putRecords exEnv exOthers (exNetWith exRejecting) 1 1 [exRec1, exRec2] =
             Some (Inl (LoadingRecordsFailed er), n') \<and>
           heads n' = heads (exNetWith exRejecting) \<and> bus n' = bus (exNetWith exRejecting) \<and>
           trace n' = trace (exNetWith exRejecting) @ newCalls (exNetWith exRejecting) n' \<and>
           list_all isLoadCall (newCalls (exNetWith exRejecting) n')"
proof -
  have h1: "[exRec1, exRec2] \<noteq> []" by simp
  have h2: "isKnown exEnv (exNetWith exRejecting) (Cid (last [exRec1, exRec2])) = Inr False"
    by (simp add: model_defs ex_defs)
  have h3: "Defined (Cid (last [exRec1, exRec2]))"
    by (simp add: model_defs ex_defs)
  have h4: "currentHead exEnv (exNetWith exRejecting) 1 1 = Inr Undef"
    by (simp add: model_defs ex_defs)
  have h5: "buildChain exEnv (exNetWith exRejecting) 1 Undef [exRec1, exRec2] =
              Some (Inr [exRec2, exRec1])"
    by (simp add: model_defs ex_defs bridge.simps)
  have h6: "getConnector (exNetWith exRejecting) 1 = Some exRejecting"
    by (simp add: model_defs ex_defs)
  have h7: "storeReadKey exEnv (exNetWith exRejecting) 1 = Inr (Some 9)"
    by (simp add: model_defs ex_defs)
  have h8: "exRec2 \<in> set [exRec2, exRec1]" by simp
  have h9: "rejectsBody exEnv exRejecting 9 exRec2"
    by (simp add: model_defs ex_defs)
  show ?thesis by (rule putRecords_validation_failure [OF h1 h2 h3 h4 h5 h6 h7 h8 h9])
qed

section \<open>The recheck of the head\<close>



lemma currentHead_semaAcquire [simp]:
  "currentHead e (semaAcquire t n) tid lid = currentHead e n tid lid"
  by (simp add: currentHead_def semaAcquire_def split: option.splits)

lemma recheckHead_semaAcquire [simp]:
  "recheckHead e tid lid chain head (semaAcquire t n) = recheckHead e tid lid chain head n"
  by (simp add: recheckHead_def)

lemma getConnector_semaAcquire [simp]:
  "getConnector (semaAcquire t n) tid = getConnector n tid"
  by (simp add: getConnector_def semaAcquire_def)



section \<open>The commit loop\<close>

lemma precededBy_append:
  "precededBy req prev (a @ b) =
     (precededBy req prev a \<and> precededBy req (if a = [] then prev else Some (last a)) b)"
  by (induction a arbitrary: prev) auto

lemma precededBy_weaken: "precededBy req None ext \<Longrightarrow> precededBy req prev ext"
  by (cases ext) (auto split: option.splits)

lemma commitRecords_append:
  "commitRecords e connector tid lid (pre @ post) n =
     (case commitRecords e connector tid lid pre n of
        (Inl er, n1) \<Rightarrow> (Inl er, n1)
      | (Inr u, n1) \<Rightarrow> commitRecords e connector tid lid post n1)"
  by (induction pre arbitrary: n)
     (auto split: prod.splits option.splits sum.splits)

lemma newCalls_append: "trace n' = trace n @ ext \<Longrightarrow> newCalls n n' = ext"
  by (simp add: newCalls_def)

lemma commitRecord_order:
  "commitRecord e connector tid lid r n = (res, n') \<Longrightarrow>
   \<exists>ext. trace n' = trace n @ ext \<and> precededBy (handleReq tid lid) None ext \<and>
         precededBy (envelopeReq (connector \<noteq> None) tid lid) None ext"
  by (auto simp: commitRecord_def storeSetHead_def dagAdd_def busSendWithTimeout_def
      split: option.splits prod.splits if_splits)

lemma commitRecords_order_ex:
  "commitRecords e connector tid lid chain n = (res, n') \<Longrightarrow>
   \<exists>ext. trace n' = trace n @ ext \<and> precededBy (handleReq tid lid) None ext \<and>
         precededBy (envelopeReq (connector \<noteq> None) tid lid) None ext"
proof (induction chain arbitrary: n)
  case Nil
  then show ?case by simp
next
  case (Cons r rest)
  obtain res1 n1 where step: "commitRecord e connector tid lid r n = (res1, n1)"
    by (cases "commitRecord e connector tid lid r n")
  from commitRecord_order [OF step] obtain ext1 where
    e1: "trace n1 = trace n @ ext1" "precededBy (handleReq tid lid) None ext1"
      "precededBy (envelopeReq (connector \<noteq> None) tid lid) None ext1" by blast
  show ?case
  proof (cases res1)
    case (Some er)
    with Cons.prems step have "n' = n1" by simp
    with e1 show ?thesis by blast
  next
    case None
    with Cons.prems step have "commitRecords e connector tid lid rest n1 = (res, n')" by simp
    from Cons.IH [OF this] obtain ext2 where
      e2: "trace n' = trace n1 @ ext2" "precededBy (handleReq tid lid) None ext2"
        "precededBy (envelopeReq (connector \<noteq> None) tid lid) None ext2" by blast
    have "trace n' = trace n @ (ext1 @ ext2)" using e1 e2 by simp
    moreover have "precededBy (handleReq tid lid) None (ext1 @ ext2)"
      using e1 e2 by (simp add: precededBy_append precededBy_weaken)
    moreover have "precededBy (envelopeReq (connector \<noteq> None) tid lid) None (ext1 @ ext2)"
      using e1 e2 by (simp add: precededBy_append precededBy_weaken)
    ultimately show ?thesis by blast
  qed
qed

lemma commitRecords_order:
  assumes "commitRecords e connector tid lid chain n = (res, n')"
  shows "trace n' = trace n @ newCalls n n'"
    and "precededBy (handleReq tid lid) None (newCalls n n')"
    and "precededBy (envelopeReq (connector \<noteq> None) tid lid) None (newCalls n n')"
proof -
  from commitRecords_order_ex [OF assms]
  obtain ext where e: "trace n' = trace n @ ext" "precededBy (handleReq tid lid) None ext"
    "precededBy (envelopeReq (connector \<noteq> None) tid lid) None ext" by blast
  from e(1) have "newCalls n n' = ext" by (rule newCalls_append)
  with e show "trace n' = trace n @ newCalls n n'"
    and "precededBy (handleReq tid lid) None (newCalls n n')"
    and "precededBy (envelopeReq (connector \<noteq> None) tid lid) None (newCalls n n')"
    by simp_all
qed

lemma commitRecords_handle_failure:
  assumes "commitRecords e (Some c) tid lid pre n = (Inr (), n1)"
    and "storeSetHead_err e tid lid (Cid (Value r)) = None"
    and "HandleNetRecord c r = Some er"
  shows "commitRecords e (Some c) tid lid (pre @ r # post) n =
           (Inl (HandlingRecordFailed er),
            n1\<lparr>heads := (heads n1)((tid, lid) := [Cid (Value r)]),
               trace := trace n1 @ [EvSetHead tid lid (Cid (Value r)),
                                    EvHandleNetRecord (Cid (Value r)) False]\<rparr>)"
  using assms by (simp add: commitRecords_append commitRecord_def storeSetHead_def)

lemma putRecordsLocked_commit:
  assumes "recheckHead e tid lid chain head n = Inr (Some todo)"
  shows "putRecordsLocked e tid lid chain head n =
           (case commitRecords e (getConnector n tid) tid lid todo (semaAcquire tid n) of
              (res, n1) \<Rightarrow> (res, semaRelease tid n1))"
  using assms by (simp add: putRecordsLocked_def putRecordsBody_def)

lemma putRecords_returns:
  assumes "loadRecords e n tid lid recs = Some (Inr (chain, head), m)" and "chain \<noteq> []"
  shows "putRecords e others n tid lid recs =
           Some (putRecordsLocked e tid lid chain head (others m))"
  using assms by (simp add: putRecords_def)


lemma handle_after_head_aux:
  assumes lr: "loadRecords e n tid lid recs = Some (Inr (chain, head), m)"
    and ne: "chain \<noteq> []"
    and rh: "recheckHead e tid lid chain head (others m) = Inr (Some todo)"
    and gc: "getConnector (others m) tid = Some c"
    and pr: "putRecords e others n tid lid recs = Some (res, n')"
  shows "precededBy (handleReq tid lid) None (newCalls (others m) n') \<and>
         (\<forall>pre r post er n1.
            todo = pre @ r # post \<and>
            commitRecords e (Some c) tid lid pre (semaAcquire tid (others m)) = (Inr (), n1) \<and>
            storeSetHead_err e tid lid (Cid (Value r)) = None \<and>
            HandleNetRecord c r = Some er \<longrightarrow>
            res = Inl (HandlingRecordFailed er) \<and>
            heads n' = (heads n1)((tid, lid) := [Cid (Value r)]) \<and>
            bstore n' = bstore n1 \<and> bus n' = bus n1 \<and>
            trace n' = trace n1 @ [EvSetHead tid lid (Cid (Value r)),
                                   EvHandleNetRecord (Cid (Value r)) False,
                                   EvRelease tid])"
proof -
  let ?a = "semaAcquire tid (others m)"
  from lr ne pr have pl: "putRecordsLocked e tid lid chain head (others m) = (res, n')"
    by (simp add: putRecords_def)
  obtain res2 n2 where cm: "commitRecords e (Some c) tid lid todo ?a = (res2, n2)"
    by (cases "commitRecords e (Some c) tid lid todo ?a")
  have "putRecordsLocked e tid lid chain head (others m) = (res2, semaRelease tid n2)"
    by (simp add: putRecordsLocked_commit [OF rh] gc cm)
  with pl have res: "res = res2" and n': "n' = semaRelease tid n2" by simp_all
  from commitRecords_order [OF cm]
  have t2: "trace n2 = trace ?a @ newCalls ?a n2"
    and o2: "precededBy (handleReq tid lid) None (newCalls ?a n2)" by simp_all
  have "trace n' = trace (others m) @ (EvAcquire tid # newCalls ?a n2 @ [EvRelease tid])"
    using t2 n' by (simp add: semaAcquire_def semaRelease_def)
  then have nc: "newCalls (others m) n' = EvAcquire tid # newCalls ?a n2 @ [EvRelease tid]"
    by (rule newCalls_append)
  have order: "precededBy (handleReq tid lid) None (newCalls (others m) n')"
    unfolding nc using o2 by (simp add: precededBy_append precededBy_weaken)
  have fail: "res = Inl (HandlingRecordFailed er) \<and>
            heads n' = (heads n1)((tid, lid) := [Cid (Value r)]) \<and>
            bstore n' = bstore n1 \<and> bus n' = bus n1 \<and>
            trace n' = trace n1 @ [EvSetHead tid lid (Cid (Value r)),
                                   EvHandleNetRecord (Cid (Value r)) False,
                                   EvRelease tid]"
    if "todo = pre @ r # post"
      and "commitRecords e (Some c) tid lid pre ?a = (Inr (), n1)"
      and "storeSetHead_err e tid lid (Cid (Value r)) = None"
      and "HandleNetRecord c r = Some er"
    for pre r post er n1
    using commitRecords_handle_failure [OF that(2,3,4), of post] cm res n' that(1)
    by (auto simp: semaRelease_def)
  from order fail show ?thesis by blast
qed

text \<open>
  C3. \<open>loadRecords\<close> has returned a chain, the semaphore is held, the recheck of the
  head leaves the records \<open>todo\<close> to commit, and a connector is attached. Then every
  call of \<open>HandleNetRecord\<close> for a record comes right after the \<open>SetHead\<close> that made
  the CID of that record the head of the log. And when the records before \<open>r\<close> have
  been committed, the head is set to the CID of \<open>r\<close> and \<open>HandleNetRecord\<close> fails on
  \<open>r\<close>, \<open>putRecords\<close> returns that error (wrapped by "handling record failed"), the
  head of the log is the CID of \<open>r\<close>, and nothing else happens but the release of the
  semaphore: the envelope of \<open>r\<close> is not added, \<open>r\<close> is not published, and no record
  after \<open>r\<close> is touched.
\<close>

theorem putRecords_handle_after_head:
  assumes lr: "loadRecords e n tid lid recs = Some (Inr (chain, head), m)"
    and ne: "chain \<noteq> []"
    and rh: "recheckHead e tid lid chain head (others m) = Inr (Some todo)"
    and gc: "getConnector (others m) tid = Some c"
  shows "\<exists>res n'. putRecords e others n tid lid recs = Some (res, n') \<and>
         precededBy (handleReq tid lid) None (newCalls (others m) n') \<and>
         (\<forall>pre r post er n1.
            todo = pre @ r # post \<and>
            commitRecords e (Some c) tid lid pre (semaAcquire tid (others m)) = (Inr (), n1) \<and>
            storeSetHead_err e tid lid (Cid (Value r)) = None \<and>
            HandleNetRecord c r = Some er \<longrightarrow>
            res = Inl (HandlingRecordFailed er) \<and>
            heads n' = (heads n1)((tid, lid) := [Cid (Value r)]) \<and>
            bstore n' = bstore n1 \<and> bus n' = bus n1 \<and>
            trace n' = trace n1 @ [EvSetHead tid lid (Cid (Value r)),
                                   EvHandleNetRecord (Cid (Value r)) False,
                                   EvRelease tid])"
proof -
  obtain res n' where pl: "putRecordsLocked e tid lid chain head (others m) = (res, n')"
    by (cases "putRecordsLocked e tid lid chain head (others m)")
  with putRecords_returns [OF lr ne, of others]
  have pr: "putRecords e others n tid lid recs = Some (res, n')" by simp
  from handle_after_head_aux [OF lr ne rh gc pr] pr show ?thesis by blast
qed

theorem putRecords_handle_after_head_witness:
  "fst (the (putRecords exEnv id (exNetWith exFailing) 1 1 [exRec1, exRec2])) =
     Inl (HandlingRecordFailed (External 2)) \<and>
   heads (snd (the (putRecords exEnv id (exNetWith exFailing) 1 1 [exRec1, exRec2]))) (1, 1) =
     [CID 1] \<and>
   bus (snd (the (putRecords exEnv id (exNetWith exFailing) 1 1 [exRec1, exRec2]))) = [] \<and>
   precededBy (handleReq 1 1) None
     (newCalls (snd (the (loadRecords exEnv (exNetWith exFailing) 1 1 [exRec1, exRec2])))
        (snd (the (putRecords exEnv id (exNetWith exFailing) 1 1 [exRec1, exRec2]))))"
proof -
  let ?n = "exNetWith exFailing"
  let ?recs = "[exRec1, exRec2]"
  let ?chain = "[NewRecord exRec1 1 1, NewRecord exRec2 1 1]"
  let ?m = "snd (the (loadRecords exEnv ?n 1 1 ?recs))"
  have lr: "loadRecords exEnv ?n 1 1 ?recs = Some (Inr (?chain, Undef), ?m)"
    by (simp add: model_defs ex_defs bridge.simps)
  have ne: "?chain \<noteq> []" by simp
  have rh: "recheckHead exEnv 1 1 ?chain Undef (id ?m) = Inr (Some ?chain)"
    by (simp add: model_defs ex_defs bridge.simps)
  have gc: "getConnector (id ?m) 1 = Some exFailing"
    by (simp add: model_defs ex_defs bridge.simps)
  have a: "?chain = [] @ NewRecord exRec1 1 1 # [NewRecord exRec2 1 1]" by simp
  have b: "commitRecords exEnv (Some exFailing) 1 1 [] (semaAcquire 1 (id ?m)) =
             (Inr (), semaAcquire 1 (id ?m))" by simp
  have c: "storeSetHead_err exEnv 1 1 (Cid (Value (NewRecord exRec1 1 1))) = None"
    by (simp add: exEnv_def)
  have d: "HandleNetRecord exFailing (NewRecord exRec1 1 1) = Some (External 2)"
    by (simp add: exFailing_def NewRecord_def exRec1_def)
  have bm: "bus ?m = []"
    by (simp add: model_defs ex_defs bridge.simps)
  from putRecords_handle_after_head
    [where others = id and e = exEnv and n = ?n and tid = 1 and lid = 1 and m = ?m,
      OF lr ne rh gc]
  obtain res n' where p: "putRecords exEnv id ?n 1 1 ?recs = Some (res, n')"
    and o: "precededBy (handleReq 1 1) None (newCalls (id ?m) n')"
    and f: "\<forall>pre r post er n1.
            ?chain = pre @ r # post \<and>
            commitRecords exEnv (Some exFailing) 1 1 pre (semaAcquire 1 (id ?m)) = (Inr (), n1) \<and>
            storeSetHead_err exEnv 1 1 (Cid (Value r)) = None \<and>
            HandleNetRecord exFailing r = Some er \<longrightarrow>
            res = Inl (HandlingRecordFailed er) \<and>
            heads n' = (heads n1)((1, 1) := [Cid (Value r)]) \<and>
            bstore n' = bstore n1 \<and> bus n' = bus n1 \<and>
            trace n' = trace n1 @ [EvSetHead 1 1 (Cid (Value r)),
                                   EvHandleNetRecord (Cid (Value r)) False,
                                   EvRelease 1]"
    by blast
  note g = f [rule_format, OF conjI [OF a conjI [OF b conjI [OF c d]]]]
  from p have "the (putRecords exEnv id ?n 1 1 ?recs) = (res, n')" by simp
  with o g bm show ?thesis
    by (simp add: NewRecord_def exRec1_def semaAcquire_def)
qed

section \<open>Envelope after handle\<close>

lemma commitRecord_envelope:
  assumes "commitRecord e connector tid lid r n = (res, n')"
  shows "bstore n' = bstore n \<or>
         (bstore n' = insert (Cid (Value r)) (bstore n) \<and>
          (\<forall>c. connector = Some c \<longrightarrow> HandleNetRecord c r = None) \<and>
          (\<exists>ext. trace n' = trace n @ ext \<and>
             EvSetHead tid lid (Cid (Value r)) \<in> set ext \<and> EvAdd (Cid (Value r)) \<in> set ext \<and>
             (connector \<noteq> None \<longrightarrow> EvHandleNetRecord (Cid (Value r)) True \<in> set ext)))"
  using assms
  by (auto simp: commitRecord_def storeSetHead_def dagAdd_def busSendWithTimeout_def
      split: option.splits prod.splits if_splits)
















section \<open>Idempotence\<close>

lemma bridge_prefix_aux:
  assumes "bridge e n tid head c chain = Some y"
  shows "\<forall>chain'. y = Inr chain' \<longrightarrow> (\<exists>suf. chain' = chain @ suf)"
proof (rule bridge.raw_induct
    [where P = "\<lambda>e n tid head c chain y. \<forall>chain'. y = Inr chain' \<longrightarrow> (\<exists>suf. chain' = chain @ suf)",
      OF _ assms])
  fix f e n tid head c chain y
  assume IH: "\<And>e n tid head c chain y. f e n tid head c chain = Some y \<Longrightarrow>
                \<forall>chain'. y = Inr chain' \<longrightarrow> (\<exists>suf. chain' = chain @ suf)"
    and step: "(if Defined c then
                  (if c = head then Some (Inr chain)
                   else (case getRecord e n tid c of
                           Inl er \<Rightarrow> Some (Inl er)
                         | Inr r \<Rightarrow> f e n tid head (PrevID r) (chain @ [r])))
                else Some (Inr chain)) = Some y"
  show "\<forall>chain'. y = Inr chain' \<longrightarrow> (\<exists>suf. chain' = chain @ suf)"
  proof (intro allI impI)
    fix chain'
    assume y: "y = Inr chain'"
    show "\<exists>suf. chain' = chain @ suf"
    proof (cases "Defined c \<and> c \<noteq> head")
      case False
      with step y show ?thesis by (auto split: if_splits)
    next
      case True
      with step y obtain r where "getRecord e n tid c = Inr r"
        and "f e n tid head (PrevID r) (chain @ [r]) = Some (Inr chain')"
        by (auto split: sum.splits)
      from IH [OF this(2)] obtain suf where "chain' = (chain @ [r]) @ suf" by blast
      then have "chain' = chain @ (r # suf)" by simp
      then show ?thesis by blast
    qed
  qed
qed

lemma bridge_prefix:
  "bridge e n tid head c chain = Some (Inr chain') \<Longrightarrow> \<exists>suf. chain' = chain @ suf"
  using bridge_prefix_aux by blast

lemma collect_prefix:
  "collect head rs acc = (chain, complete) \<Longrightarrow> \<exists>suf. chain = acc @ suf"
proof (induction rs arbitrary: acc)
  case Nil
  then show ?case by simp
next
  case (Cons a rs)
  show ?case
  proof (cases "\<not> Defined (Cid a) \<or> Cid a = head")
    case True
    with Cons.prems show ?thesis by simp
  next
    case False
    with Cons.prems have "collect head rs (acc @ [a]) = (chain, complete)" by simp
    from Cons.IH [OF this] show ?thesis by auto
  qed
qed

lemma collect_empty:
  "collect head (r # rs) [] = ([], complete) \<Longrightarrow> \<not> Defined (Cid r) \<or> Cid r = head"
  using collect_prefix [of head rs "[r]" "[]" complete] by (auto split: if_splits)

lemma buildChain_hd:
  assumes "buildChain e n tid head recs = Some (Inr chain)" and "chain \<noteq> []" and "recs \<noteq> []"
  shows "hd chain = last recs"
proof -
  from assms(3) obtain x xs where rv: "rev recs = x # xs" and x: "x = last recs"
    by (cases recs rule: rev_cases) auto
  obtain chain0 complete where co: "collect head (rev recs) [] = (chain0, complete)"
    by (cases "collect head (rev recs) []")
  have pre: "\<exists>suf. chain = chain0 @ suf"
  proof (cases complete)
    case True
    with assms(1) co show ?thesis by (simp add: buildChain_def)
  next
    case False
    with assms(1) co have "chain0 \<noteq> []"
      by (auto simp: buildChain_def split: list.splits)
    with False assms(1) co
    have "bridge e n tid head (PrevID (last chain0)) chain0 = Some (Inr chain)"
      by (auto simp: buildChain_def split: list.splits)
    then show ?thesis by (rule bridge_prefix)
  qed
  show ?thesis
  proof (cases "\<not> Defined (Cid x) \<or> Cid x = head")
    case True
    with co rv have "chain0 = []" "complete" by auto
    with assms(1,2) co show ?thesis by (simp add: buildChain_def)
  next
    case False
    with co rv have "collect head xs [x] = (chain0, complete)" by simp
    from collect_prefix [OF this] obtain suf where "chain0 = [x] @ suf" by blast
    with pre x show ?thesis by auto
  qed
qed

lemma currentHead_frame:
  "heads n' = heads n \<Longrightarrow> currentHead e n' tid lid = currentHead e n tid lid"
  by (simp add: currentHead_def split: option.splits)

lemma commitRecord_success:
  "commitRecord e connector tid lid r n = (None, n') \<Longrightarrow>
   bus n' = bus n @ [r] \<and> bstore n' = insert (Cid (Value r)) (bstore n) \<and>
   heads n' = (heads n)((tid, lid) := [Cid (Value r)])"
  by (auto simp: commitRecord_def storeSetHead_def dagAdd_def busSendWithTimeout_def
      split: option.splits prod.splits if_splits)

lemma commitRecord_bstore_mono:
  "commitRecord e connector tid lid r n = (res, n') \<Longrightarrow> bstore n \<subseteq> bstore n'"
  using commitRecord_envelope by blast

lemma commitRecords_bstore_mono:
  "commitRecords e connector tid lid chain n = (res, n') \<Longrightarrow> bstore n \<subseteq> bstore n'"
proof (induction chain arbitrary: n)
  case Nil
  then show ?case by simp
next
  case (Cons r rest)
  obtain res1 n1 where step: "commitRecord e connector tid lid r n = (res1, n1)"
    by (cases "commitRecord e connector tid lid r n")
  from commitRecord_bstore_mono [OF step] have m1: "bstore n \<subseteq> bstore n1" .
  show ?case
  proof (cases res1)
    case None
    with Cons.prems step have "commitRecords e connector tid lid rest n1 = (res, n')" by simp
    from Cons.IH [OF this] m1 show ?thesis by blast
  next
    case (Some er)
    with Cons.prems step m1 show ?thesis by simp
  qed
qed

lemma commitRecords_success:
  "commitRecords e connector tid lid chain n = (Inr (), n') \<Longrightarrow>
   bus n' = bus n @ chain \<and> (\<lambda>r. Cid (Value r)) ` set chain \<subseteq> bstore n' \<and>
   (chain \<noteq> [] \<longrightarrow> heads n' (tid, lid) = [Cid (Value (last chain))])"
proof (induction chain arbitrary: n)
  case Nil
  then show ?case by simp
next
  case (Cons r rest)
  obtain res1 n1 where step: "commitRecord e connector tid lid r n = (res1, n1)"
    by (cases "commitRecord e connector tid lid r n")
  with Cons.prems have none: "res1 = None"
    and cont: "commitRecords e connector tid lid rest n1 = (Inr (), n')"
    by (auto split: option.splits)
  from commitRecord_success step none
  have s: "bus n1 = bus n @ [r]" "bstore n1 = insert (Cid (Value r)) (bstore n)"
    "heads n1 = (heads n)((tid, lid) := [Cid (Value r)])" by blast+
  from Cons.IH [OF cont]
  have ih: "bus n' = bus n1 @ rest" "(\<lambda>r. Cid (Value r)) ` set rest \<subseteq> bstore n'"
    "rest \<noteq> [] \<longrightarrow> heads n' (tid, lid) = [Cid (Value (last rest))]" by blast+
  from commitRecords_bstore_mono [OF cont] s(2) have "Cid (Value r) \<in> bstore n'" by auto
  moreover have "rest = [] \<Longrightarrow> n' = n1" using cont by simp
  ultimately show ?case using s ih by auto
qed




section \<open>Head monotonicity\<close>








lemma linkedFrom_append:
  "linkedFrom h (xs @ ys) =
     (linkedFrom h xs \<and> linkedFrom (if xs = [] then h else Cid (last xs)) ys)"
  by (induction xs arbitrary: h) auto

lemma linkedFrom_snoc:
  "linkedFrom h (xs @ [r]) =
     (linkedFrom h xs \<and> PrevID r = (if xs = [] then h else Cid (last xs)))"
  by (auto simp: linkedFrom_append)






text \<open>
  The same path sets the head back. On a peer whose handler fails on the first record of
  the log, \<open>putRecords\<close> is called with the first record, then with both records, then
  with the first record again. The first call leaves the head on the first record
  without its envelope in the blockstore; the second call moves the head to the second
  record; the third call finds the first record unknown, walks from it to the undefined
  CID without meeting the head, and sets the head to the first record again.
\<close>

lemma putRecords_head_set_back:
  "heads exAfter1 (1, 1) = [CID 1] \<and> heads exAfter2 (1, 1) = [CID 2] \<and>
   heads exAfter3 (1, 1) = [CID 1]"
  by (simp add: model_defs ex_defs bridge.simps)




section \<open>getLocalRecords\<close>

lemma getLocalRecordsLoop_walk:
  "getLocalRecordsLoop e sk offset limit cursor recs = (rs, err) \<Longrightarrow>
   \<exists>new. rs = new @ recs \<and> fetchedFrom e sk offset cursor (rev new) \<and>
     int (length rs) \<le> max limit (int (length recs)) \<and>
     (err = None \<and> int (length rs) < limit \<longrightarrow>
        \<not> Defined (nextCursor cursor new) \<or> nextCursor cursor new = offset)"
proof (induction e sk offset limit cursor recs rule: getLocalRecordsLoop.induct)
  case (1 e sk offset limit cursor recs)
  show ?case
  proof (cases "int (length recs) < limit \<and> Defined cursor \<and> cursor \<noteq> offset")
    case False
    with "1.prems" have "rs = recs" "err = None"
      by (auto simp: getLocalRecordsLoop.simps [of e sk offset limit cursor recs] split: if_splits)
    with False have "rs = [] @ recs \<and> fetchedFrom e sk offset cursor (rev []) \<and>
     int (length rs) \<le> max limit (int (length recs)) \<and>
     (err = None \<and> int (length rs) < limit \<longrightarrow>
        \<not> Defined (nextCursor cursor []) \<or> nextCursor cursor [] = offset)"
      by (auto simp: nextCursor_def)
    then show ?thesis by blast
  next
    case True
    show ?thesis
    proof (cases "cborGetRecord e cursor sk")
      case (Inl er)
      with True "1.prems" have "rs = recs" "err = Some er"
        by (auto simp: getLocalRecordsLoop.simps [of e sk offset limit cursor recs])
      with True have "rs = [] @ recs \<and> fetchedFrom e sk offset cursor (rev []) \<and>
       int (length rs) \<le> max limit (int (length recs)) \<and>
       (err = None \<and> int (length rs) < limit \<longrightarrow>
          \<not> Defined (nextCursor cursor []) \<or> nextCursor cursor [] = offset)"
        by auto
      then show ?thesis by blast
    next
      case (Inr r)
      with True "1.prems"
      have rec: "getLocalRecordsLoop e sk offset limit (PrevID r) (r # recs) = (rs, err)"
        by (auto simp: getLocalRecordsLoop.simps [of e sk offset limit cursor recs])
      from True Inr have "int (length recs) < limit" "\<not> (\<not> Defined cursor \<or> cursor = offset)"
        by auto
      from "1.IH" [OF this Inr rec] obtain new where
        n: "rs = new @ r # recs" "fetchedFrom e sk offset (PrevID r) (rev new)"
        "int (length rs) \<le> max limit (int (length (r # recs)))"
        "err = None \<and> int (length rs) < limit \<longrightarrow>
          \<not> Defined (nextCursor (PrevID r) new) \<or> nextCursor (PrevID r) new = offset"
        by blast
      have nc: "nextCursor cursor (new @ [r]) = nextCursor (PrevID r) new"
        by (cases new) (simp_all add: nextCursor_def)
      have "rs = (new @ [r]) @ recs" using n(1) by simp
      moreover have "fetchedFrom e sk offset cursor (rev (new @ [r]))"
        using n(2) True Inr by simp
      moreover have "int (length rs) \<le> max limit (int (length recs))"
        using n(3) True by auto
      moreover have "err = None \<and> int (length rs) < limit \<longrightarrow>
          \<not> Defined (nextCursor cursor (new @ [r])) \<or> nextCursor cursor (new @ [r]) = offset"
        using n(4) nc by simp
      ultimately show ?thesis by blast
    qed
  qed
qed

lemma fetchedFrom_cids:
  assumes "\<And>c r. cborGetRecord e c sk = Inr r \<Longrightarrow> Cid r = c"
  shows "fetchedFrom e sk offset cursor xs \<Longrightarrow> \<forall>r \<in> set xs. Cid r \<noteq> offset \<and> Defined (Cid r)"
  by (induction xs arbitrary: cursor) (auto dest: assms)

text \<open>
  C8, as the code has it. The peer holds both records of the log and its head is the
  second one. With an offset that is defined and not in the blockstore the call returns
  no record, where a walk from the head (the undefined offset) returns both.
\<close>

theorem getLocalRecords_counterexample:
  "getLocalRecords exEnv exNetHead2 1 1 (CID 7) 10 = ([], None) \<and>
   getLocalRecords exEnv exNetHead2 1 1 Undef 10 = ([exRec1, exRec2], None)"
  by (simp add: getLocalRecords_def storeGetLog_def model_defs ex_defs exNetHead2_def
      getLocalRecordsLoop.simps)

text \<open>
  C8, amended. When the offset is defined and not in the blockstore, \<open>getLocalRecords\<close>
  returns no record and no error. Otherwise, with the log and the service key at hand,
  it returns at most \<open>limit\<close> records, in chronological order: read backwards they are
  the records fetched by following \<open>prev\<close> pointers from the head of the log, none of
  them fetched at the offset or at an undefined CID; when the walk ends without error
  before the limit, it has stopped at the offset or at an undefined CID. When the DAG
  service returns for a CID the record of that CID, no record returned has the CID of the
  offset.
\<close>

theorem getLocalRecords_walk:
  "(Defined offset \<and> isKnown e n offset = Inr False \<longrightarrow>
      getLocalRecords e n tid lid offset limit = ([], None)) \<and>
   ((\<not> Defined offset \<or> isKnown e n offset = Inr True) \<and>
    storeGetLog e n tid lid = Inr lg \<and> storeServiceKey e n tid = Inr (Some sk) \<and>
    getLocalRecords e n tid lid offset limit = (rs, err) \<longrightarrow>
      int (length rs) \<le> max 0 limit \<and>
      fetchedFrom e sk offset (Head lg) (rev rs) \<and>
      (err = None \<and> int (length rs) < limit \<longrightarrow>
         \<not> Defined (nextCursor (Head lg) rs) \<or> nextCursor (Head lg) rs = offset) \<and>
      ((\<forall>c r. cborGetRecord e c sk = Inr r \<longrightarrow> Cid r = c) \<longrightarrow>
         (\<forall>r \<in> set rs. Cid r \<noteq> offset \<and> Defined (Cid r))))"
proof (intro conjI impI)
  assume "Defined offset \<and> isKnown e n offset = Inr False"
  then show "getLocalRecords e n tid lid offset limit = ([], None)"
    by (simp add: getLocalRecords_def)
next
  assume a: "(\<not> Defined offset \<or> isKnown e n offset = Inr True) \<and>
    storeGetLog e n tid lid = Inr lg \<and> storeServiceKey e n tid = Inr (Some sk) \<and>
    getLocalRecords e n tid lid offset limit = (rs, err)"
  then have gl: "storeGetLog e n tid lid = Inr lg"
    and sk: "storeServiceKey e n tid = Inr (Some sk)"
    and k: "\<not> Defined offset \<or> isKnown e n offset = Inr True"
    and r: "getLocalRecords e n tid lid offset limit = (rs, err)" by simp_all
  have "getLocalRecords e n tid lid offset limit =
          getLocalRecordsLoop e sk offset limit (Head lg) []"
  proof (cases "Defined offset")
    case True
    with k show ?thesis by (simp add: getLocalRecords_def Let_def gl sk)
  next
    case False
    then show ?thesis by (simp add: getLocalRecords_def Let_def gl sk)
  qed
  with r have "getLocalRecordsLoop e sk offset limit (Head lg) [] = (rs, err)" by simp
  from getLocalRecordsLoop_walk [OF this] have
    w: "fetchedFrom e sk offset (Head lg) (rev rs)"
    "int (length rs) \<le> max limit 0"
    "err = None \<and> int (length rs) < limit \<longrightarrow>
        \<not> Defined (nextCursor (Head lg) rs) \<or> nextCursor (Head lg) rs = offset"
    by auto
  from w(2) show "int (length rs) \<le> max 0 limit" by simp
  from w(1) show "fetchedFrom e sk offset (Head lg) (rev rs)" .
  from w(3) show "err = None \<and> int (length rs) < limit \<Longrightarrow>
        \<not> Defined (nextCursor (Head lg) rs) \<or> nextCursor (Head lg) rs = offset" by simp
  show "\<forall>r \<in> set rs. Cid r \<noteq> offset \<and> Defined (Cid r)"
    if "\<forall>c r. cborGetRecord e c sk = Inr r \<longrightarrow> Cid r = c"
    using fetchedFrom_cids [of e sk offset "Head lg" "rev rs"] that w(1) by auto
qed

theorem getLocalRecords_walk_witness:
  "getLocalRecords exEnv exNetHead2 1 1 (CID 7) 10 = ([], None) \<and>
   getLocalRecords exEnv exNetHead2 1 1 (CID 1) 10 = ([exRec2], None) \<and>
   int (length [exRec2]) \<le> max 0 10 \<and>
   fetchedFrom exEnv 5 (CID 1) (CID 2) (rev [exRec2]) \<and>
   nextCursor (CID 2) [exRec2] = CID 1"
proof -
  have a: "Defined (CID 7) \<and> isKnown exEnv exNetHead2 (CID 7) = Inr False"
    by (simp add: model_defs ex_defs)
  have b: "(\<not> Defined (CID 1) \<or> isKnown exEnv exNetHead2 (CID 1) = Inr True) \<and>
    storeGetLog exEnv exNetHead2 1 1 = Inr \<lparr>Head = CID 2\<rparr> \<and>
    storeServiceKey exEnv exNetHead2 1 = Inr (Some 5) \<and>
    getLocalRecords exEnv exNetHead2 1 1 (CID 1) 10 = ([exRec2], None)"
    by (simp add: model_defs ex_defs getLocalRecordsLoop.simps)
  have c: "err = None \<and> int (length [exRec2]) < 10" if "err = None" for err :: "error option"
    using that by simp
  note t1 = getLocalRecords_walk
    [of "CID 7" exEnv exNetHead2 1 1 10, THEN conjunct1, rule_format, OF a]
  note t2 = getLocalRecords_walk
    [of "CID 1" exEnv exNetHead2 1 1 10 "\<lparr>Head = CID 2\<rparr>" 5 "[exRec2]" None,
      THEN conjunct2, rule_format, OF b]
  from t1 t2 b show ?thesis by (simp add: nextCursor_def exRec2_def)
qed

section \<open>Threads without a read key\<close>

lemma quietFrame_refl: "quietFrame n n"
  by (simp add: quietFrame_def)

lemma quietFrame_trans: "quietFrame n n1 \<Longrightarrow> quietFrame n1 n2 \<Longrightarrow> quietFrame n n2"
  unfolding quietFrame_def by (elim exE conjE) (auto simp: list_all_append)

lemma quietFrame_newCalls:
  "quietFrame n n' \<Longrightarrow>
   trace n' = trace n @ newCalls n n' \<and> list_all (\<lambda>ev. \<not> isBodyCall ev) (newCalls n n')"
  unfolding quietFrame_def by (auto simp: newCalls_def)

lemma loadRecord_quiet:
  "loadRecord e connector readKey False r n = (res, n') \<Longrightarrow> quietFrame n n'"
  by (auto simp: loadRecord_def dagAddMany_def quietFrame_def
      split: sum.splits option.splits prod.splits)

lemma loadChain_quiet:
  "loadChain e connector readKey False rs n = (res, n') \<Longrightarrow> quietFrame n n'"
proof (induction rs arbitrary: n)
  case Nil
  then show ?case by (simp add: quietFrame_refl)
next
  case (Cons r rs)
  obtain res1 n1 where step: "loadRecord e connector readKey False r n = (res1, n1)"
    by (cases "loadRecord e connector readKey False r n")
  from loadRecord_quiet [OF step] have q1: "quietFrame n n1" .
  show ?case
  proof (cases res1)
    case None
    with Cons.prems step have "loadChain e connector readKey False rs n1 = (res, n')" by simp
    from q1 Cons.IH [OF this] show ?thesis by (rule quietFrame_trans)
  next
    case (Some er)
    with Cons.prems step q1 show ?thesis by simp
  qed
qed

lemma validateChain_no_readKey:
  assumes "readKeys n tid = None"
  shows "validateChain e n tid lid head chain =
           (case (if getConnector n tid \<noteq> None then storeReadKey e n tid else Inr None) of
              Inl er \<Rightarrow> (Inl er, n)
            | Inr readKey \<Rightarrow>
                (case loadChain e (getConnector n tid) None False (rev chain) n of
                   (Some er, n1) \<Rightarrow> (Inl er, n1)
                 | (None, n1) \<Rightarrow> (Inr (map (\<lambda>r. NewRecord r tid lid) (rev chain), head), n1)))"
  using assms
  by (auto simp: validateChain_def Let_def storeReadKey_def split: option.splits sum.splits)

lemma validateChain_quiet:
  assumes "readKeys n tid = None" and "validateChain e n tid lid head chain = (res, n')"
  shows "quietFrame n n'"
  using assms(2) unfolding validateChain_no_readKey [OF assms(1)]
  by (auto split: sum.splits prod.splits option.splits if_splits
      intro: quietFrame_refl dest: loadChain_quiet)

lemma loadRecords_quiet:
  assumes "readKeys n tid = None" and "loadRecords e n tid lid recs = Some (res, n')"
  shows "quietFrame n n'"
  using assms(2) unfolding loadRecords_def
  by (auto split: sum.splits prod.splits option.splits if_splits
      intro: quietFrame_refl dest: validateChain_quiet [OF assms(1)])

lemma commitRecord_quiet:
  "commitRecord e connector tid lid r n = (res, n') \<Longrightarrow> quietFrame n n'"
  by (auto simp: commitRecord_def storeSetHead_def dagAdd_def busSendWithTimeout_def
        quietFrame_def
      split: option.splits prod.splits if_splits)

lemma commitRecords_quiet:
  "commitRecords e connector tid lid chain n = (res, n') \<Longrightarrow> quietFrame n n'"
proof (induction chain arbitrary: n)
  case Nil
  then show ?case by (simp add: quietFrame_refl)
next
  case (Cons r rest)
  obtain res1 n1 where step: "commitRecord e connector tid lid r n = (res1, n1)"
    by (cases "commitRecord e connector tid lid r n")
  from commitRecord_quiet [OF step] have q1: "quietFrame n n1" .
  show ?case
  proof (cases res1)
    case None
    with Cons.prems step have "commitRecords e connector tid lid rest n1 = (res, n')" by simp
    from q1 Cons.IH [OF this] show ?thesis by (rule quietFrame_trans)
  next
    case (Some er)
    with Cons.prems step q1 show ?thesis by simp
  qed
qed

lemma putRecordsLocked_quiet:
  assumes "putRecordsLocked e tid lid chain head n = (res, n')"
  shows "quietFrame n n'"
proof -
  have a: "quietFrame n (semaAcquire tid n)"
    by (simp add: quietFrame_def semaAcquire_def)
  obtain res1 n1 where b: "putRecordsBody e tid lid chain head (semaAcquire tid n) = (res1, n1)"
    by (cases "putRecordsBody e tid lid chain head (semaAcquire tid n)")
  then have "quietFrame (semaAcquire tid n) n1"
    by (auto simp: putRecordsBody_def split: sum.splits option.splits
        intro: quietFrame_refl dest: commitRecords_quiet)
  moreover have "quietFrame n1 (semaRelease tid n1)"
    by (simp add: quietFrame_def semaRelease_def)
  moreover from assms b have "n' = semaRelease tid n1" by (simp add: putRecordsLocked_def)
  ultimately show ?thesis using a by (blast intro: quietFrame_trans)
qed

lemma putRecords_quiet:
  assumes "readKeys n tid = None" and "putRecords e id n tid lid recs = Some (res, n')"
  shows "quietFrame n n'"
proof -
  from assms(2) obtain res1 m where lr: "loadRecords e n tid lid recs = Some (res1, m)"
    by (auto simp: putRecords_def split: option.splits)
  from loadRecords_quiet [OF assms(1) lr] have q: "quietFrame n m" .
  from assms(2) lr have "n' = m \<or> (\<exists>chain head. putRecordsLocked e tid lid chain head m = (res, n'))"
    by (auto simp: putRecords_def split: sum.splits prod.splits if_splits)
  then show ?thesis
    using q by (auto dest: putRecordsLocked_quiet intro: quietFrame_trans)
qed

lemma loadRecord_ok:
  "loadable e r \<Longrightarrow> \<exists>n'. loadRecord e connector readKey False r n = (None, n')"
  by (auto simp: loadable_def loadRecord_def dagAddMany_def split: sum.splits)

lemma loadChain_ok:
  "\<forall>r \<in> set rs. loadable e r \<Longrightarrow> \<exists>n'. loadChain e connector readKey False rs n = (None, n')"
proof (induction rs arbitrary: n)
  case Nil
  then show ?case by simp
next
  case (Cons r rs)
  from Cons.prems have "loadable e r" by simp
  from loadRecord_ok [OF this] obtain n1 where
    "loadRecord e connector readKey False r n = (None, n1)" by blast
  moreover from Cons.prems have "\<forall>r \<in> set rs. loadable e r" by simp
  from Cons.IH [OF this] obtain n' where
    "loadChain e connector readKey False rs n1 = (None, n')" by blast
  ultimately show ?case by simp
qed

lemma commitRecord_ok:
  "committable e connector tid lid r \<Longrightarrow>
   \<exists>n'. commitRecord e connector tid lid (NewRecord r tid lid) n = (None, n')"
  by (auto simp: committable_def commitRecord_def storeSetHead_def dagAdd_def
        busSendWithTimeout_def NewRecord_def split: option.splits)

lemma commitRecords_ok:
  "\<forall>r \<in> set rs. committable e connector tid lid r \<Longrightarrow>
   \<exists>n'. commitRecords e connector tid lid (map (\<lambda>r. NewRecord r tid lid) rs) n = (Inr (), n')"
proof (induction rs arbitrary: n)
  case Nil
  then show ?case by simp
next
  case (Cons r rs)
  from Cons.prems have "committable e connector tid lid r" by simp
  from commitRecord_ok [OF this] obtain n1 where
    "commitRecord e connector tid lid (NewRecord r tid lid) n = (None, n1)" by blast
  moreover from Cons.prems have "\<forall>r \<in> set rs. committable e connector tid lid r" by simp
  from Cons.IH [OF this] obtain n' where
    "commitRecords e connector tid lid (map (\<lambda>r. NewRecord r tid lid) rs) n1 = (Inr (), n')"
    by blast
  ultimately show ?case by simp
qed


text \<open>
  C9. The logstore returns no read key for the thread. Then \<open>validate\<close> is false: the
  loading loop runs without validation; whatever a call of \<open>putRecords\<close> that runs
  alone returns, it has decrypted no body and has not called
  \<open>ValidateNetRecordBody\<close>; and when the chain is built and no collaborator fails on
  its records, the call returns success, the head of the log is the CID of the last
  record given, and the envelopes of all the records of the chain are in the
  blockstore.
\<close>

theorem putRecords_service_only:
  assumes nokey: "storeReadKey e n tid = Inr None"
  shows "validateChain e n tid lid head chain =
           (case loadChain e (getConnector n tid) None False (rev chain) n of
              (Some er, n1) \<Rightarrow> (Inl er, n1)
            | (None, n1) \<Rightarrow> (Inr (map (\<lambda>r. NewRecord r tid lid) (rev chain), head), n1)) \<and>
         (\<forall>res n'. putRecords e id n tid lid recs = Some (res, n') \<longrightarrow>
            trace n' = trace n @ newCalls n n' \<and>
            list_all (\<lambda>ev. \<not> isBodyCall ev) (newCalls n n')) \<and>
         (recs \<noteq> [] \<and> isKnown e n (Cid (last recs)) = Inr False \<and>
          Defined (Cid (last recs)) \<and> currentHead e n tid lid = Inr head \<and>
          buildChain e n tid head recs = Some (Inr chain) \<and> chain \<noteq> [] \<and>
          (\<forall>r \<in> set chain. loadable e r \<and> committable e (getConnector n tid) tid lid r) \<longrightarrow>
          (\<exists>n'. putRecords e id n tid lid recs = Some (Inr (), n') \<and>
                heads n' (tid, lid) = [Cid (last recs)] \<and>
                Cid ` set chain \<subseteq> bstore n'))"
proof -
  from nokey have rk: "readKeys n tid = None"
    by (simp add: storeReadKey_def split: option.splits)
  have vc: "validateChain e n tid lid head chain =
           (case loadChain e (getConnector n tid) None False (rev chain) n of
              (Some er, n1) \<Rightarrow> (Inl er, n1)
            | (None, n1) \<Rightarrow> (Inr (map (\<lambda>r. NewRecord r tid lid) (rev chain), head), n1))"
    for head chain
    unfolding validateChain_no_readKey [OF rk] by (simp add: nokey)
  have quiet: "trace n' = trace n @ newCalls n n' \<and>
            list_all (\<lambda>ev. \<not> isBodyCall ev) (newCalls n n')"
    if "putRecords e id n tid lid recs = Some (res, n')" for res n'
    using putRecords_quiet [OF rk that] by (rule quietFrame_newCalls)
  have works: "\<exists>n'. putRecords e id n tid lid recs = Some (Inr (), n') \<and>
                heads n' (tid, lid) = [Cid (last recs)] \<and>
                Cid ` set chain \<subseteq> bstore n'"
    if a: "recs \<noteq> []" "isKnown e n (Cid (last recs)) = Inr False"
      "Defined (Cid (last recs))" "currentHead e n tid lid = Inr head"
      "buildChain e n tid head recs = Some (Inr chain)" "chain \<noteq> []"
      and ok: "\<forall>r \<in> set chain. loadable e r \<and> committable e (getConnector n tid) tid lid r"
  proof -
    let ?tchain = "map (\<lambda>r. NewRecord r tid lid) (rev chain)"
    from ok have "\<forall>r \<in> set (rev chain). loadable e r" by simp
    from loadChain_ok [OF this] obtain m where
      lc: "loadChain e (getConnector n tid) None False (rev chain) n = (None, m)" by blast
    have lr: "loadRecords e n tid lid recs = Some (Inr (?tchain, head), m)"
      using a lc by (simp add: loadRecords_def vc)
    from loadRecords_frame [OF lr] have fr: "loadFrame n m" .
    then have hm: "heads m = heads n" and cm: "connectors m = connectors n"
      by (simp_all add: loadFrame_def)
    have ne: "?tchain \<noteq> []" using a(6) by simp
    have rh: "recheckHead e tid lid ?tchain head m = Inr (Some ?tchain)"
      using a(4) currentHead_frame [OF hm, of e tid lid] by (simp add: recheckHead_def)
    have gc: "getConnector m tid = getConnector n tid"
      using cm by (simp add: getConnector_def)
    from ok have "\<forall>r \<in> set (rev chain). committable e (getConnector n tid) tid lid r" by simp
    from commitRecords_ok [OF this, of "semaAcquire tid m"] obtain n2 where
      c2: "commitRecords e (getConnector n tid) tid lid ?tchain (semaAcquire tid m) = (Inr (), n2)"
      by blast
    have pl: "putRecordsLocked e tid lid ?tchain head m = (Inr (), semaRelease tid n2)"
      by (simp add: putRecordsLocked_commit [OF rh] gc c2)
    have pr: "putRecords e id n tid lid recs = Some (Inr (), semaRelease tid n2)"
      using lr ne pl by (simp add: putRecords_def)
    from commitRecords_success [OF c2] ne
    have s: "(\<lambda>r. Cid (Value r)) ` set ?tchain \<subseteq> bstore n2"
      "heads n2 (tid, lid) = [Cid (Value (last ?tchain))]" by blast+
    have "last ?tchain = NewRecord (hd chain) tid lid"
      using a(6) by (simp add: last_map last_rev)
    also have "hd chain = last recs" using buildChain_hd [OF a(5,6,1)] .
    finally have "Cid (Value (last ?tchain)) = Cid (last recs)" by (simp add: NewRecord_def)
    with s(2) have h: "heads (semaRelease tid n2) (tid, lid) = [Cid (last recs)]"
      by (simp add: semaRelease_def)
    have "(\<lambda>r. Cid (Value r)) ` set ?tchain = Cid ` set chain"
      by (simp add: image_image NewRecord_def)
    with s(1) have "Cid ` set chain \<subseteq> bstore (semaRelease tid n2)"
      by (simp add: semaRelease_def)
    with pr h show ?thesis by blast
  qed
  from vc quiet works show ?thesis by blast
qed

theorem putRecords_service_only_witness:
  "fst (the (putRecords exEnv id exNetService 1 1 [exRec1, exRec2])) = Inr () \<and>
   heads (snd (the (putRecords exEnv id exNetService 1 1 [exRec1, exRec2]))) (1, 1) = [CID 2] \<and>
   CID 1 \<in> bstore (snd (the (putRecords exEnv id exNetService 1 1 [exRec1, exRec2]))) \<and>
   CID 2 \<in> bstore (snd (the (putRecords exEnv id exNetService 1 1 [exRec1, exRec2]))) \<and>
   list_all (\<lambda>ev. \<not> isBodyCall ev)
     (newCalls exNetService (snd (the (putRecords exEnv id exNetService 1 1 [exRec1, exRec2]))))"
proof -
  let ?recs = "[exRec1, exRec2]"
  let ?chain = "[exRec2, exRec1]"
  have nokey: "storeReadKey exEnv exNetService 1 = Inr None"
    by (simp add: model_defs ex_defs)
  have a: "?recs \<noteq> [] \<and> isKnown exEnv exNetService (Cid (last ?recs)) = Inr False \<and>
          Defined (Cid (last ?recs)) \<and> currentHead exEnv exNetService 1 1 = Inr Undef \<and>
          buildChain exEnv exNetService 1 Undef ?recs = Some (Inr ?chain) \<and> ?chain \<noteq> [] \<and>
          (\<forall>r \<in> set ?chain. loadable exEnv r \<and>
             committable exEnv (getConnector exNetService 1) 1 1 r)"
    by (simp add: model_defs ex_defs bridge.simps loadable_def committable_def)
  note t = putRecords_service_only [OF nokey, of 1 Undef ?chain ?recs]
  from t [THEN conjunct2, THEN conjunct2, rule_format, OF a]
  obtain n' where p: "putRecords exEnv id exNetService 1 1 ?recs = Some (Inr (), n')"
    and h: "heads n' (1, 1) = [Cid (last ?recs)]" and b: "Cid ` set ?chain \<subseteq> bstore n'"
    by blast
  from t [THEN conjunct2, THEN conjunct1, rule_format, OF p]
  have q: "list_all (\<lambda>ev. \<not> isBodyCall ev) (newCalls exNetService n')" by simp
  from p h b q show ?thesis by (simp add: exRec1_def exRec2_def)
qed

end
